theory Spec2Isabelle
  imports Complex_Main "HOL-Library.Sublist"
begin

section \<open>Texts and character classes\<close>

text \<open>
  A Python \<open>str\<close> is modelled as a \<open>string\<close>: a list of code points below 256 (the
  Latin-1 range of Python's text). The character classes are those of Python's \<open>re\<close>
  module on text patterns and of the \<open>str\<close> methods, restricted to that range.
\<close>

definition is_digit :: "char \<Rightarrow> bool" where
  \<comment> \<open>\<open>\d\<close>: the decimal digits.\<close>
  "is_digit c = (c \<in> set ''0123456789'')"

definition is_space :: "char \<Rightarrow> bool" where
  \<comment> \<open>\<open>\s\<close> and \<open>str.isspace\<close>: tab, the line breaks, the separators 28-31, the space,
    NEL (133) and the no-break space (160).\<close>
  "is_space c = ((of_char c :: nat) \<in> {9, 10, 11, 12, 13, 28, 29, 30, 31, 32, 133, 160})"

definition is_word :: "char \<Rightarrow> bool" where
  \<comment> \<open>\<open>\w\<close>: alphanumeric (\<open>str.isalnum\<close>) or the underscore.\<close>
  "is_word c =
     (let n = (of_char c :: nat) in
      (48 \<le> n \<and> n \<le> 57) \<or> (65 \<le> n \<and> n \<le> 90) \<or> n = 95 \<or> (97 \<le> n \<and> n \<le> 122) \<or>
      n \<in> {170, 178, 179, 181, 185, 186, 188, 189, 190} \<or>
      (192 \<le> n \<and> n \<le> 214) \<or> (216 \<le> n \<and> n \<le> 246) \<or> (248 \<le> n \<and> n \<le> 255))"

definition is_linebreak :: "char \<Rightarrow> bool" where
  \<comment> \<open>the line boundaries of \<open>str.splitlines\<close>.\<close>
  "is_linebreak c = ((of_char c :: nat) \<in> {10, 11, 12, 13, 28, 29, 30, 133})"

definition rstrip :: "string \<Rightarrow> string" where
  "rstrip s = rev (dropWhile is_space (rev s))"

definition strip :: "string \<Rightarrow> string" where
  "strip s = rstrip (dropWhile is_space s)"

fun join :: "string \<Rightarrow> string list \<Rightarrow> string" where
  \<comment> \<open>\<open>sep.join(xs)\<close>\<close>
  "join sep [] = []"
| "join sep [x] = x"
| "join sep (x # y # ys) = x @ sep @ join sep (y # ys)"

fun keep_first :: "'a list \<Rightarrow> 'a list \<Rightarrow> 'a list" where
  \<comment> \<open>order-preserving removal of duplicates: the \<open>seen\<close> loop of \<open>_parse_selected_keys\<close>
    and \<open>list(dict.fromkeys(...))\<close>; the first occurrence of a key stays.\<close>
  "keep_first seen [] = []"
| "keep_first seen (k # ks) =
     (if k \<in> set seen then keep_first seen ks else k # keep_first (k # seen) ks)"

section \<open>Citation tokens\<close>

definition match_cite :: "string \<Rightarrow> (string \<times> string) option" where
  \<comment> \<open>The pattern \<open>\[S(\d+)\]\<close> tried at the start of \<open>s\<close>: the digits of group 1 and the
    text after the match. \<open>\d+\<close> is greedy and a digit is never \<open>]\<close>, so the match takes
    the whole run of digits.\<close>
  "match_cite s =
     (case s of
        c0 # c1 # t \<Rightarrow>
          (if c0 = CHR ''['' \<and> c1 = CHR ''S'' then
             (case dropWhile is_digit t of
                c2 # rest \<Rightarrow>
                  if takeWhile is_digit t \<noteq> [] \<and> c2 = CHR '']''
                  then Some (takeWhile is_digit t, rest) else None
              | [] \<Rightarrow> None)
           else None)
      | _ \<Rightarrow> None)"

lemma match_cite_shorter: "match_cite s = Some (ds, rest) \<Longrightarrow> length rest < length s"
proof -
  assume m: "match_cite s = Some (ds, rest)"
  then obtain t c2 where s: "s = CHR ''['' # CHR ''S'' # t" and d: "dropWhile is_digit t = c2 # rest"
    by (auto simp: match_cite_def split: list.splits if_splits)
  have "length (dropWhile is_digit t) \<le> length t" by (rule length_dropWhile_le)
  with s d show ?thesis by simp
qed

function find_keys :: "string \<Rightarrow> string list" where
  \<comment> \<open>\<open>re.findall\<close> for \<open>\[(S\d+)\]\<close> (\<open>SRC_KEYS\<close> of ledger.py): group 1 of every match,
    left to right, the search resuming after each match.\<close>
  "find_keys [] = []"
| "find_keys (c # cs) =
     (case match_cite (c # cs) of
        Some (ds, rest) \<Rightarrow> (CHR ''S'' # ds) # find_keys rest
      | None \<Rightarrow> find_keys cs)"
  by pat_completeness auto
termination
  by (relation "measure length") (auto dest: match_cite_shorter)

fun has_cite :: "string \<Rightarrow> bool" where
  \<comment> \<open>\<open>re.search(r"\[S\d+\]", p)\<close> finds a match.\<close>
  "has_cite [] = False"
| "has_cite (c # cs) = (if match_cite (c # cs) = None then has_cite cs else True)"

section \<open>crew/workflow.py\<close>

subsection \<open>Selection of the keys\<close>

record source =
  key :: "string option"
  title :: "string option"
  url :: "string option"
  doi :: "string option"
  year :: "int option"
  abstract :: "string option"

function scan_keys :: "bool \<Rightarrow> string \<Rightarrow> string list" where
  \<comment> \<open>\<open>re.findall(r"\bS\d+\b", text)\<close>; \<open>pw\<close> says that the character before the position
    is a word character. A match needs a word boundary before the \<open>S\<close>, the whole run of
    digits (one at least) and a word boundary after it.\<close>
  "scan_keys pw [] = []"
| "scan_keys pw (c # cs) =
     (if \<not> pw \<and> c = CHR ''S'' \<and> takeWhile is_digit cs \<noteq> [] \<and>
         (case dropWhile is_digit cs of [] \<Rightarrow> True | d # _ \<Rightarrow> \<not> is_word d)
      then (CHR ''S'' # takeWhile is_digit cs) # scan_keys True (dropWhile is_digit cs)
      else scan_keys (is_word c) cs)"
  by pat_completeness auto
termination
  by (relation "measure (\<lambda>(pw, s). length s)") (auto simp: length_dropWhile_le less_Suc_eq_le)

definition parse_selected_keys :: "string \<Rightarrow> string list" where
  \<comment> \<open>\<open>_parse_selected_keys\<close>\<close>
  "parse_selected_keys text = (if text = [] then [] else keep_first [] (scan_keys False text))"

definition catalog_keys :: "source list \<Rightarrow> string list" where
  \<comment> \<open>\<open>[s.get("key") for s in sources if s.get("key")]\<close>: the keys that are present and
    not empty, in catalog order.\<close>
  "catalog_keys sources = concat (map (\<lambda>s. case key s of None \<Rightarrow> [] | Some k \<Rightarrow> if k = [] then [] else [k]) sources)"

definition select_keys :: "string \<Rightarrow> source list \<Rightarrow> string list" where
  \<comment> \<open>lines 165-169 of \<open>run_generation_with_crew\<close>\<close>
  "select_keys keys_raw sources =
     (let selected_keys = parse_selected_keys keys_raw in
      if selected_keys = [] then take 2 (catalog_keys sources) else selected_keys)"

subsection \<open>Filter, placeholder and coverage\<close>

function sub_cites :: "string list \<Rightarrow> string \<Rightarrow> string" where
  \<comment> \<open>\<open>pat.sub(repl, text)\<close> of \<open>_sanitize_citations\<close>: a match whose key is allowed stays,
    any other match is replaced by the empty text; one pass, left to right.\<close>
  "sub_cites allowed [] = []"
| "sub_cites allowed (c # cs) =
     (case match_cite (c # cs) of
        Some (ds, rest) \<Rightarrow>
          (if CHR ''S'' # ds \<in> set allowed then ''[S'' @ ds @ '']'' else []) @ sub_cites allowed rest
      | None \<Rightarrow> c # sub_cites allowed cs)"
  by pat_completeness auto
termination
  by (relation "measure (\<lambda>(a, s). length s)") (auto dest: match_cite_shorter)

definition sanitize_citations :: "string \<Rightarrow> string list \<Rightarrow> string" where
  \<comment> \<open>\<open>_sanitize_citations\<close>\<close>
  "sanitize_citations text allowed_keys = (if text = [] then text else sub_cites allowed_keys text)"

datatype error = Template_escape

definition cite_template :: "string \<Rightarrow> error + string" where
  \<comment> \<open>The replacement \<open>f"[{first}]"\<close> handed to \<open>re.sub\<close>. Without a backslash it is
    literal text. With one, \<open>re\<close> reads it as a template (it expands the escape or raises
    \<open>re.error\<close>); that outcome is kept apart as \<open>Template_escape\<close> and not refined.\<close>
  "cite_template first =
     (if CHR 0x5C \<in> set first then Inl Template_escape else Inr (''['' @ first @ '']''))"

fun sub_placeholder :: "string \<Rightarrow> string \<Rightarrow> string" where
  \<comment> \<open>\<open>re.sub(r"\[S#\]", repl, text)\<close> for a literal replacement \<open>repl\<close>.\<close>
  "sub_placeholder repl (c0 # c1 # c2 # c3 # cs) =
     (if c0 = CHR ''['' \<and> c1 = CHR ''S'' \<and> c2 = CHR ''#'' \<and> c3 = CHR '']''
      then repl @ sub_placeholder repl cs
      else c0 # sub_placeholder repl (c1 # c2 # c3 # cs))"
| "sub_placeholder repl cs = cs"

definition match_sep :: "string \<Rightarrow> string option" where
  \<comment> \<open>The pattern \<open>\n\s*\n+\<close> tried at the start of \<open>s\<close>: the text after the match.
    \<open>\s*\<close> is greedy and gives back until a newline follows, so the match ends with the
    last newline of the run of whitespace that follows the first newline.\<close>
  "match_sep s =
     (case s of
        [] \<Rightarrow> None
      | c # t \<Rightarrow>
          (if c = CHR ''\<newline>'' \<and> CHR ''\<newline>'' \<in> set (takeWhile is_space t)
           then Some (rev (takeWhile (\<lambda>x. x \<noteq> CHR ''\<newline>'') (rev (takeWhile is_space t)))
                      @ dropWhile is_space t)
           else None))"

lemma match_sep_shorter: "match_sep s = Some rest \<Longrightarrow> length rest < length s"
proof -
  assume m: "match_sep s = Some rest"
  then obtain c t where s: "s = c # t"
    and r: "rest = rev (takeWhile (\<lambda>x. x \<noteq> CHR ''\<newline>'') (rev (takeWhile is_space t))) @ dropWhile is_space t"
    by (auto simp: match_sep_def split: list.splits if_splits)
  have "length (takeWhile (\<lambda>x. x \<noteq> CHR ''\<newline>'') (rev (takeWhile is_space t)))
          \<le> length (takeWhile is_space t)"
    using length_takeWhile_le [of "\<lambda>x. x \<noteq> CHR ''\<newline>''" "rev (takeWhile is_space t)"] by simp
  moreover have "length (takeWhile is_space t) + length (dropWhile is_space t) = length t"
    using takeWhile_dropWhile_id [of is_space t] length_append [of "takeWhile is_space t" "dropWhile is_space t"]
    by simp
  ultimately show ?thesis using s r by simp
qed

function split_paras :: "string \<Rightarrow> string list" where
  \<comment> \<open>\<open>re.split(r"\n\s*\n+", text)\<close>: the pieces between the matches.\<close>
  "split_paras [] = [[]]"
| "split_paras (c # cs) =
     (case match_sep (c # cs) of
        Some rest \<Rightarrow> [] # split_paras rest
      | None \<Rightarrow> (case split_paras cs of p # ps \<Rightarrow> (c # p) # ps | [] \<Rightarrow> [[c]]))"
  by pat_completeness auto
termination
  by (relation "measure length") (auto dest: match_sep_shorter)

definition ensure_citation_per_paragraph :: "string \<Rightarrow> string list \<Rightarrow> string" where
  \<comment> \<open>\<open>_ensure_citation_per_paragraph\<close>\<close>
  "ensure_citation_per_paragraph text selected_keys =
     (case selected_keys of
        [] \<Rightarrow> text
      | first # _ \<Rightarrow>
          if text = [] then text
          else join ''\<newline>\<newline>''
                 (map (\<lambda>p. if has_cite p then p else rstrip p @ '' ['' @ first @ '']'')
                      (split_paras (strip text))))"

definition sanitize_and_return :: "string list \<Rightarrow> string \<Rightarrow> string \<Rightarrow> error + string" where
  \<comment> \<open>"Sanitize and Return", lines 226-246 of \<open>run_generation_with_crew\<close>, from the
    selected keys, the adapted text and the edited text.\<close>
  "sanitize_and_return selected_keys adapted_text final_text =
     (let final1 = sanitize_citations final_text selected_keys;
          adapted1 = sanitize_citations adapted_text selected_keys
      in case selected_keys of
           [] \<Rightarrow>
             (let final3 = ensure_citation_per_paragraph final1 selected_keys;
                  adapted3 = ensure_citation_per_paragraph adapted1 selected_keys
              in Inr (if final3 = [] then adapted3 else final3))
         | first # _ \<Rightarrow>
             (case cite_template first of
                Inl e \<Rightarrow> Inl e
              | Inr repl \<Rightarrow>
                  (let final2 = sub_placeholder repl final1;
                       adapted2 = sub_placeholder repl adapted1;
                       final3 = ensure_citation_per_paragraph final2 selected_keys;
                       adapted3 = ensure_citation_per_paragraph adapted2 selected_keys;
                       final4 = (if has_cite final3 then final3
                                 else rstrip final3 @ '' ['' @ first @ '']'')
                   in Inr (if final4 = [] then adapted3 else final4))))"

definition run_generation_with_crew ::
  "source list \<Rightarrow> string \<Rightarrow> string option \<Rightarrow> string \<Rightarrow> error + string" where
  \<comment> \<open>\<open>run_generation_with_crew\<close> from what the three collaborators return: the
    researcher's \<open>keys_raw\<close>, the adapter's text (\<open>None\<close> when the step raises, line 200)
    and the editor's text. Both texts are stripped (lines 199 and 224).\<close>
  "run_generation_with_crew sources keys_raw adapter_out editor_out =
     sanitize_and_return (select_keys keys_raw sources)
       (case adapter_out of None \<Rightarrow> [] | Some t \<Rightarrow> strip t)
       (strip editor_out)"

section \<open>ledger.py\<close>

subsection \<open>Paragraphs and claims\<close>

fun splitlines_from :: "string \<Rightarrow> string \<Rightarrow> string list" where
  \<comment> \<open>\<open>str.splitlines\<close>, with the line read so far: a line ends at a line break (CR LF
    counts once); the text after the last break is a line when it is not empty.\<close>
  "splitlines_from cur [] = (if cur = [] then [] else [cur])"
| "splitlines_from cur [c] = (if is_linebreak c then [cur] else [cur @ [c]])"
| "splitlines_from cur (c # d # cs) =
     (if c = CHR 0x0D \<and> d = CHR ''\<newline>'' then cur # splitlines_from [] cs
      else if is_linebreak c then cur # splitlines_from [] (d # cs)
      else splitlines_from (cur @ [c]) (d # cs))"

definition splitlines :: "string \<Rightarrow> string list" where
  "splitlines s = splitlines_from [] s"

definition H1 :: "string \<Rightarrow> string option" where
  \<comment> \<open>\<open>H1.match(ln)\<close> for \<open>^#\s+(.*)\<close>: group 1 when the line matches. \<open>\s+\<close> takes the
    whole run of whitespace and \<open>.*\<close> the rest up to a newline.\<close>
  "H1 line =
     (case line of
        c0 # c1 # t \<Rightarrow>
          if c0 = CHR ''#'' \<and> is_space c1
          then Some (takeWhile (\<lambda>x. x \<noteq> CHR ''\<newline>'') (dropWhile is_space t))
          else None
      | _ \<Rightarrow> None)"

definition H2 :: "string \<Rightarrow> string option" where
  \<comment> \<open>\<open>H2.match(ln)\<close> for \<open>^##\s+(.*)\<close>\<close>
  "H2 line =
     (case line of
        c0 # c1 # c2 # t \<Rightarrow>
          if c0 = CHR ''#'' \<and> c1 = CHR ''#'' \<and> is_space c2
          then Some (takeWhile (\<lambda>x. x \<noteq> CHR ''\<newline>'') (dropWhile is_space t))
          else None
      | _ \<Rightarrow> None)"

record iter_state =
  h1 :: "string option"
  h2 :: "string option"
  buf :: "string list"

definition section_path :: "iter_state \<Rightarrow> string" where
  \<comment> \<open>\<open>" > ".join([p for p in [h1, h2] if p]) or "ROOT"\<close>\<close>
  "section_path st =
     (let ps = concat (map (\<lambda>h. case h of None \<Rightarrow> [] | Some p \<Rightarrow> if p = [] then [] else [p])
                           [h1 st, h2 st]);
          path = join '' > '' ps
      in if path = [] then ''ROOT'' else path)"

definition flush :: "iter_state \<Rightarrow> (string \<times> string) list \<times> iter_state" where
  \<comment> \<open>\<open>flush\<close> of \<open>_iter_paragraphs\<close>: what it yields, and the state with the buffer
    emptied.\<close>
  "flush st =
     ((if buf st = [] then []
       else (let para = strip (join ''\<newline>'' (buf st))
             in if para = [] then [] else [(section_path st, para)])),
      st\<lparr>buf := []\<rparr>)"

definition iter_step :: "iter_state \<Rightarrow> string \<Rightarrow> (string \<times> string) list \<times> iter_state" where
  \<comment> \<open>one turn of the loop over the lines (lines 89-102): what it yields and the next
    state.\<close>
  "iter_step st line =
     (case H1 line of
        Some g \<Rightarrow> (fst (flush st), (snd (flush st))\<lparr>h1 := Some (strip g), h2 := None\<rparr>)
      | None \<Rightarrow>
          (case H2 line of
             Some g \<Rightarrow> (fst (flush st), (snd (flush st))\<lparr>h2 := Some (strip g)\<rparr>)
           | None \<Rightarrow>
               if strip line = [] then flush st
               else ([], st\<lparr>buf := buf st @ [line]\<rparr>)))"

fun iter_lines :: "iter_state \<Rightarrow> string list \<Rightarrow> (string \<times> string) list" where
  \<comment> \<open>the loop, then the last \<open>flush\<close> (line 103)\<close>
  "iter_lines st [] = fst (flush st)"
| "iter_lines st (line # lines) = fst (iter_step st line) @ iter_lines (snd (iter_step st line)) lines"

definition iter_paragraphs :: "string \<Rightarrow> (string \<times> string) list" where
  \<comment> \<open>\<open>_iter_paragraphs\<close>: the pairs (section path, paragraph) in the order yielded.\<close>
  "iter_paragraphs md_text =
     iter_lines \<lparr>h1 = None, h2 = None, buf = []\<rparr> (splitlines md_text)"

definition claim_of :: "string \<times> string \<Rightarrow> (string \<times> string \<times> string list) list" where
  \<comment> \<open>the body of the loop of \<open>extract_claims\<close> (lines 111-113)\<close>
  "claim_of sp =
     (let keys = keep_first [] (find_keys (snd sp))
      in if keys = [] then [] else [(fst sp, snd sp, keys)])"

definition extract_claims :: "string \<Rightarrow> (string \<times> string \<times> string list) list" where
  "extract_claims md_text = concat (map claim_of (iter_paragraphs md_text))"

subsection \<open>Similarity\<close>

fun collapse_ws :: "bool \<Rightarrow> string \<Rightarrow> string" where
  \<comment> \<open>\<open>re.sub(r"\s+", " ", s)\<close>; the flag says that the run of whitespace at hand has
    been replaced already.\<close>
  "collapse_ws inw [] = []"
| "collapse_ws inw (c # cs) =
     (if is_space c then (if inw then collapse_ws True cs else CHR '' '' # collapse_ws True cs)
      else c # collapse_ws False cs)"

definition norm_str :: "string \<Rightarrow> string" where
  \<comment> \<open>\<open>_norm\<close>\<close>
  "norm_str s = strip (collapse_ws False s)"

definition similarity :: "(string \<Rightarrow> string \<Rightarrow> real) \<Rightarrow> string \<Rightarrow> string option \<Rightarrow> real option" where
  \<comment> \<open>\<open>similarity\<close>; \<open>token_set_ratio\<close> stands for \<open>rapidfuzz.fuzz.token_set_ratio\<close>, a
    library function outside the repository.\<close>
  "similarity token_set_ratio a b =
     (case b of
        None \<Rightarrow> None
      | Some b' \<Rightarrow> if b' = [] then None
                  else Some (token_set_ratio (norm_str a) (norm_str b') / 100))"

subsection \<open>Sources and rows\<close>

fun str_nat :: "nat \<Rightarrow> string" where
  "str_nat n =
     (if n < 10 then [char_of (48 + n)] else str_nat (n div 10) @ [char_of (48 + n mod 10)])"

definition str_int :: "int \<Rightarrow> string" where
  \<comment> \<open>\<open>str\<close> of an integer, as the f-string prints the year\<close>
  "str_int i = (if i < 0 then CHR ''-'' # str_nat (nat (- i)) else str_nat (nat i))"

definition or_else :: "string option \<Rightarrow> string \<Rightarrow> string" where
  \<comment> \<open>\<open>x or d\<close> for a text that may be absent\<close>
  "or_else x d = (case x of None \<Rightarrow> d | Some v \<Rightarrow> if v = [] then d else v)"

definition apa :: "source \<Rightarrow> string" where
  \<comment> \<open>the citation string of lines 145-153\<close>
  "apa it =
     (let t = or_else (title it) ''Untitled'';
          head = (case year it of
                    None \<Rightarrow> t @ ''. ''
                  | Some y \<Rightarrow> if y = 0 then t @ ''. ''
                              else ''('' @ str_int y @ '') '' @ t @ ''. '')
      in if or_else (doi it) [] \<noteq> [] then head @ ''https://doi.org/'' @ or_else (doi it) []
         else head @ or_else (url it) [])"

definition load_item ::
  "source \<Rightarrow> (string \<rightharpoonup> string) \<times> (string \<rightharpoonup> string) \<Rightarrow> (string \<rightharpoonup> string) \<times> (string \<rightharpoonup> string)" where
  \<comment> \<open>one turn of the loop of \<open>load_sources_maps\<close>: an item without a key is skipped\<close>
  "load_item it maps =
     (case key it of
        None \<Rightarrow> maps
      | Some k \<Rightarrow>
          if k = [] then maps
          else ((fst maps)(k \<mapsto> apa it), (snd maps)(k \<mapsto> or_else (abstract it) [])))"

definition load_sources_maps :: "source list \<Rightarrow> (string \<rightharpoonup> string) \<times> (string \<rightharpoonup> string)" where
  "load_sources_maps data = fold load_item data (Map.empty, Map.empty)"

record LedgerRow =
  project_id :: string
  row_section :: string  \<comment> \<open>the field \<open>section\<close>\<close>
  claim_text :: string
  source_key :: string
  source_citation :: string
  similarity_score :: "real option"
  created_at :: int

definition rows_of ::
  "(string \<Rightarrow> string \<Rightarrow> real) \<Rightarrow> string \<Rightarrow> int \<Rightarrow> (string \<rightharpoonup> string) \<times> (string \<rightharpoonup> string)
     \<Rightarrow> string \<times> string \<times> string list \<Rightarrow> LedgerRow list" where
  \<comment> \<open>the rows of one claim (lines 182-193)\<close>
  "rows_of token_set_ratio pid now maps claim =
     (case claim of
        (sec, para, keys) \<Rightarrow>
          map (\<lambda>k. \<lparr>project_id = pid, row_section = sec, claim_text = para, source_key = k,
                    source_citation = (case fst maps k of None \<Rightarrow> [] | Some r \<Rightarrow> r),
                    similarity_score = similarity token_set_ratio para (snd maps k),
                    created_at = now\<rparr>) keys)"

definition log_claims_from_markdown ::
  "(string \<Rightarrow> string \<Rightarrow> real) \<Rightarrow> LedgerRow list \<Rightarrow> string \<Rightarrow> int \<Rightarrow> string \<Rightarrow> source list
     \<Rightarrow> LedgerRow list \<times> nat" where
  \<comment> \<open>\<open>log_claims_from_markdown\<close> on the contents of the two files: the table after the
    insert (the rows are appended) and the number of rows inserted. \<open>now\<close> is the clock's
    reading.\<close>
  "log_claims_from_markdown token_set_ratio table pid now md data =
     (let maps = load_sources_maps data;
          rows = concat (map (rows_of token_set_ratio pid now maps) (extract_claims md))
      in (table @ rows, length rows))"

section \<open>Properties of the citation filter\<close>

lemma not_digit_brackets [simp]: "\<not> is_digit CHR '']''" "\<not> is_digit CHR ''[''"
  by (simp_all add: is_digit_def)

lemma match_cite_SomeD:
  assumes "match_cite s = Some (ds, rest)"
  shows "s = ''[S'' @ ds @ '']'' @ rest \<and> ds \<noteq> [] \<and> list_all is_digit ds"
proof -
  from assms obtain t where s: "s = CHR ''['' # CHR ''S'' # t"
    and d: "dropWhile is_digit t = CHR '']'' # rest" and ds: "ds = takeWhile is_digit t" and ne: "ds \<noteq> []"
    by (auto simp: match_cite_def split: list.splits if_splits)
  have "t = takeWhile is_digit t @ dropWhile is_digit t" by simp
  with d ds have "t = ds @ CHR '']'' # rest" by simp
  moreover have "list_all is_digit ds" unfolding ds list_all_iff by (auto dest: set_takeWhileD)
  ultimately show ?thesis using s ne by simp
qed












lemma final_text_decides:
  assumes "cite_template first = Inr repl"
    and "ensure_citation_per_paragraph (sub_placeholder repl (sanitize_citations final_text (first # ks))) (first # ks) = out"
    and "has_cite out"
  shows "sanitize_and_return (first # ks) adapted_text final_text = Inr out"
proof -
  from assms(3) have "out \<noteq> []" by auto
  then show ?thesis using assms by (simp add: sanitize_and_return_def Let_def)
qed

text \<open>
  C1. The comment of line 227 promises that no fabricated citation slips through. The
  filter makes one pass, and taking a token out can join the text on both sides of it into
  a new token. Whatever the catalog and the adapted text are, with the selected key \<open>S2\<close>
  and the edited text \<open>Neurons fire [S[S9]7].\<close> the pipeline returns
  \<open>Neurons fire [S7].\<close>: a citation token whose key is not selected.
\<close>

theorem foreign_citation_survives:
  "run_generation_with_crew sources ''S2'' adapter_out ''Neurons fire [S[S9]7].''
     = Inr ''Neurons fire [S7].''
   \<and> select_keys ''S2'' sources = [''S2'']
   \<and> find_keys ''Neurons fire [S7].'' = [''S7'']"
proof -
  have p: "parse_selected_keys ''S2'' = [''S2'']" by code_simp
  then have s: "select_keys ''S2'' sources = [''S2'']" by (simp add: select_keys_def)
  have e: "strip ''Neurons fire [S[S9]7].'' = ''Neurons fire [S[S9]7].''" by code_simp
  have t: "cite_template ''S2'' = Inr ''[S2]''" by code_simp
  have o: "ensure_citation_per_paragraph
             (sub_placeholder ''[S2]'' (sanitize_citations ''Neurons fire [S[S9]7].'' [''S2'']))
             [''S2''] = ''Neurons fire [S7].''" by code_simp
  have h: "has_cite ''Neurons fire [S7].''" by code_simp
  have k: "find_keys ''Neurons fire [S7].'' = [''S7'']" by code_simp
  show ?thesis
    using final_text_decides [OF t o h] s k by (simp add: run_generation_with_crew_def e)
qed

text \<open>
  C2. The coverage step (line 92) accepts a paragraph that holds any citation token. After
  the filter has joined \<open>[S[S9]7]\<close> into \<open>[S7]\<close>, the first paragraph of the text
  returned holds that token only, and its key is not the selected key \<open>S2\<close>.
\<close>

theorem paragraph_without_approved_citation:
  "run_generation_with_crew sources ''S2'' adapter_out
      ''Neurons fire [S[S9]7].\<newline>\<newline>Sleep aids memory [S2].''
    = Inr ''Neurons fire [S7].\<newline>\<newline>Sleep aids memory [S2].''
   \<and> select_keys ''S2'' sources = [''S2'']
   \<and> split_paras ''Neurons fire [S7].\<newline>\<newline>Sleep aids memory [S2].''
       = [''Neurons fire [S7].'', ''Sleep aids memory [S2].'']
   \<and> find_keys ''Neurons fire [S7].'' = [''S7'']"
proof -
  have p: "parse_selected_keys ''S2'' = [''S2'']" by code_simp
  then have s: "select_keys ''S2'' sources = [''S2'']" by (simp add: select_keys_def)
  have e: "strip ''Neurons fire [S[S9]7].\<newline>\<newline>Sleep aids memory [S2].''
             = ''Neurons fire [S[S9]7].\<newline>\<newline>Sleep aids memory [S2].''" by code_simp
  have t: "cite_template ''S2'' = Inr ''[S2]''" by code_simp
  have o: "ensure_citation_per_paragraph
             (sub_placeholder ''[S2]''
                (sanitize_citations ''Neurons fire [S[S9]7].\<newline>\<newline>Sleep aids memory [S2].'' [''S2'']))
             [''S2''] = ''Neurons fire [S7].\<newline>\<newline>Sleep aids memory [S2].''" by code_simp
  have h: "has_cite ''Neurons fire [S7].\<newline>\<newline>Sleep aids memory [S2].''" by code_simp
  have k: "find_keys ''Neurons fire [S7].'' = [''S7'']" by code_simp
  have sp: "split_paras ''Neurons fire [S7].\<newline>\<newline>Sleep aids memory [S2].''
       = [''Neurons fire [S7].'', ''Sleep aids memory [S2].'']" by code_simp
  show ?thesis
    using final_text_decides [OF t o h] s k sp by (simp add: run_generation_with_crew_def e)
qed

text \<open>
  C3. With a selected key, an empty edited text does not fall back to the adapted text:
  the last resort of lines 242-243 has turned the empty text into \<open>" [S1]"\<close> before line
  246 looks at it. The text returned is \<open>" [S1]"\<close> whatever the adapter wrote.
\<close>

theorem empty_edit_returns_appended_key:
  "run_generation_with_crew sources ''S1'' adapter_out [] = Inr '' [S1]''"
proof -
  have p: "parse_selected_keys ''S1'' = [''S1'']" by code_simp
  then have s: "select_keys ''S1'' sources = [''S1'']" by (simp add: select_keys_def)
  have e: "strip [] = []" by code_simp
  have t: "cite_template ''S1'' = Inr ''[S1]''" by code_simp
  have r: "rstrip [] = []" by code_simp
  show ?thesis
    by (simp add: run_generation_with_crew_def s e sanitize_and_return_def t
        sanitize_citations_def ensure_citation_per_paragraph_def r)
qed

text \<open>
  C4. The filter is not idempotent on \<open>[S[S9]1]\<close> with the allowed key \<open>S2\<close>: the first
  run returns \<open>[S1]\<close>, the second run the empty text.
\<close>

theorem filter_twice_differs:
  "sanitize_citations ''[S[S9]1]'' [''S2''] = ''[S1]''
   \<and> sanitize_citations (sanitize_citations ''[S[S9]1]'' [''S2'']) [''S2''] = []"
  by code_simp




section \<open>Properties of the selection and of the placeholder\<close>

lemma catalog_keys_filter:
  "catalog_keys sources = filter (\<lambda>k. k \<noteq> []) (List.map_filter key sources)"
  by (induction sources) (auto simp: catalog_keys_def map_filter_simps split: option.splits)

text \<open>
  C6. When \<open>_parse_selected_keys\<close> finds no key in the researcher's answer, the selected
  keys are the first two keys of the catalog, in catalog order (a source without a key, or
  with an empty one, is passed over).
\<close>

theorem fallback_first_two_keys:
  assumes "parse_selected_keys keys_raw = []"
  shows "select_keys keys_raw sources
           = take 2 (filter (\<lambda>k. k \<noteq> []) (List.map_filter key sources))
   \<and> (map key sources = [Some ''S1'', Some ''S2'', Some ''S3'']
        \<longrightarrow> select_keys keys_raw sources = [''S1'', ''S2''])"
proof -
  have g: "select_keys keys_raw sources
           = take 2 (filter (\<lambda>k. k \<noteq> []) (List.map_filter key sources))"
    using assms by (simp add: select_keys_def catalog_keys_filter)
  have m: "List.map_filter key sources = List.map_filter id (map key sources)"
    by (simp add: List.map_filter_def) (induction sources; simp)
  show ?thesis unfolding g m by (auto simp: List.map_filter_def)
qed

theorem fallback_first_two_keys_witness:
  "parse_selected_keys ''I cannot choose.'' = []
   \<and> select_keys ''I cannot choose.''
        (map (\<lambda>k. \<lparr>key = Some k, title = None, url = None, doi = None, year = None,
                    abstract = None\<rparr>) [''S1'', ''S2'', ''S3''])
      = [''S1'', ''S2'']"
proof -
  have p: "parse_selected_keys ''I cannot choose.'' = []" by code_simp
  show ?thesis
    using p fallback_first_two_keys [OF p, of "map (\<lambda>k. \<lparr>key = Some k, title = None, url = None,
      doi = None, year = None, abstract = None\<rparr>) [''S1'', ''S2'', ''S3'']"]
    by simp
qed




section \<open>Properties of the ledger\<close>

lemma similarity_None_iff:
  "similarity token_set_ratio a b = None \<longleftrightarrow> b = None \<or> b = Some []"
  by (simp add: similarity_def split: option.splits)

lemma sublist_append_left: "sublist xs ys \<Longrightarrow> sublist xs (ps @ ys)"
  unfolding sublist_def by (metis append.assoc)

lemma find_keys_sublist: "k \<in> set (find_keys s) \<Longrightarrow> sublist (''['' @ k @ '']'') s"
proof (induction s rule: find_keys.induct)
  case 1 then show ?case by simp
next
  case (2 c cs)
  show ?case
  proof (cases "match_cite (c # cs)")
    case None
    with "2.prems" "2.IH"(1) have "sublist (''['' @ k @ '']'') cs" by simp
    then show ?thesis by (simp add: sublist_Cons_right)
  next
    case (Some a)
    obtain ds rest where a: "a = (ds, rest)" by (cases a)
    from match_cite_SomeD [OF Some [unfolded a]]
    have e: "c # cs = (''['' @ (CHR ''S'' # ds) @ '']'') @ rest" by simp
    from "2.prems" Some a have "k = CHR ''S'' # ds \<or> k \<in> set (find_keys rest)" by simp
    then show ?thesis
    proof
      assume kd: "k = CHR ''S'' # ds"
      show ?thesis unfolding e kd by (rule sublist_append_rightI)
    next
      assume "k \<in> set (find_keys rest)"
      then have "sublist (''['' @ k @ '']'') rest" using "2.IH"(2) [OF Some a [symmetric]] by simp
      then show ?thesis unfolding e by (rule sublist_append_left)
    qed
  qed
qed

lemma keep_first_subset: "set (keep_first seen ks) \<subseteq> set ks"
  by (induction seen ks rule: keep_first.induct) auto

lemma extract_claims_keys:
  assumes "(sec, para, keys) \<in> set (extract_claims md)"
  shows "set keys \<subseteq> set (find_keys para)"
  using assms keep_first_subset [of "[]" "find_keys para"]
  by (auto simp: extract_claims_def claim_of_def Let_def split: if_splits)

text \<open>
  C9. Every row that \<open>log_claims_from_markdown\<close> inserts holds its \<open>source_key\<close>, in
  brackets, as a piece of its \<open>claim_text\<close>, for every document, catalog and table.
\<close>

theorem ledger_row_cites_its_key:
  "\<forall>row \<in> set (drop (length table)
       (fst (log_claims_from_markdown token_set_ratio table pid now md data))).
     sublist (''['' @ source_key row @ '']'') (claim_text row)"
proof
  fix row
  assume "row \<in> set (drop (length table)
       (fst (log_claims_from_markdown token_set_ratio table pid now md data)))"
  then obtain claim where c: "claim \<in> set (extract_claims md)"
    and r: "row \<in> set (rows_of token_set_ratio pid now (load_sources_maps data) claim)"
    by (auto simp: log_claims_from_markdown_def Let_def)
  obtain sec para keys where cl: "claim = (sec, para, keys)" by (cases claim)
  from r cl obtain k where k: "k \<in> set keys" and ct: "claim_text row = para"
    and sk: "source_key row = k"
    by (auto simp: rows_of_def)
  from c cl k have "k \<in> set (find_keys para)" using extract_claims_keys by blast
  then show "sublist (''['' @ source_key row @ '']'') (claim_text row)"
    unfolding ct sk by (rule find_keys_sublist)
qed

theorem ledger_row_cites_its_key_witness:
  "map (\<lambda>r. (source_key r, claim_text r))
     (drop (length ([] :: LedgerRow list))
       (fst (log_claims_from_markdown (\<lambda>a b. 0) [] ''p'' 0
              ''# Intro\<newline>Neurons fire. [S1] [S2]''
              [\<lparr>key = Some ''S1'', title = Some ''T'', url = None, doi = None,
                year = Some 2020, abstract = Some ''Neurons''\<rparr>])))
     = [(''S1'', ''Neurons fire. [S1] [S2]''), (''S2'', ''Neurons fire. [S1] [S2]'')]
   \<and> sublist ''[S1]'' ''Neurons fire. [S1] [S2]''
   \<and> sublist ''[S2]'' ''Neurons fire. [S1] [S2]''"
proof -
  let ?rows = "drop (length ([] :: LedgerRow list))
       (fst (log_claims_from_markdown (\<lambda>a b. 0) [] ''p'' 0
              ''# Intro\<newline>Neurons fire. [S1] [S2]''
              [\<lparr>key = Some ''S1'', title = Some ''T'', url = None, doi = None,
                year = Some 2020, abstract = Some ''Neurons''\<rparr>]))"
  have m: "map (\<lambda>r. (source_key r, claim_text r)) ?rows
     = [(''S1'', ''Neurons fire. [S1] [S2]''), (''S2'', ''Neurons fire. [S1] [S2]'')]"
    by code_simp
  have "\<forall>p \<in> set (map (\<lambda>r. (source_key r, claim_text r)) ?rows).
          sublist (''['' @ fst p @ '']'') (snd p)"
    using ledger_row_cites_its_key [of "[]" "\<lambda>a b. 0" "''p''" 0
        "''# Intro\<newline>Neurons fire. [S1] [S2]''"
        "[\<lparr>key = Some ''S1'', title = Some ''T'', url = None, doi = None,
                year = Some 2020, abstract = Some ''Neurons''\<rparr>]"]
    by simp
  then show ?thesis unfolding m by simp
qed

lemma not_space_hash [simp]: "\<not> is_space CHR ''#''"
  by (simp add: is_space_def)





end
